theory Spec2Isabelle
  imports Complex_Main "HOL-Library.Word"
begin

section \<open>Strings and update records\<close>

text \<open>
  A JavaScript string is a sequence of UTF-16 code units. The regular expressions of the
  word coalescer carry no \<^verbatim>\<open>u\<close> flag and \<^verbatim>\<open>split("")\<close> cuts between code units, so a
  string is modelled as a list of 16-bit words. \<open>ustr\<close> writes an ASCII literal.
\<close>

type_synonym ustring = "16 word list"

definition ustr :: "string \<Rightarrow> ustring" where
  "ustr s = map of_char s"

text \<open>
  Modelled from the spec: the type \<^verbatim>\<open>MessageUpdate\<close> and the enumeration
  \<^verbatim>\<open>MessageUpdateType\<close> are declared in \<^verbatim>\<open>$lib/types/MessageUpdate\<close>, which is not among
  the sources. The specification gives the record two variants: \<^verbatim>\<open>Stream { token }\<close>, a
  fragment of text, and \<^verbatim>\<open>NonStream\<close> with an opaque payload. The stream stages only look
  at the discriminant \<^verbatim>\<open>type\<close> (\<^verbatim>\<open>MessageUpdateType.Stream\<close> is taken to be \<^verbatim>\<open>"stream"\<close>,
  the value the coalescer compares with) and, for a stream update, at \<^verbatim>\<open>token\<close>; every
  other kind of update is carried unchanged, so its payload is a type parameter.
\<close>

datatype 'p MessageUpdate = Stream (token: ustring) | NonStream 'p

fun isStream :: "'p MessageUpdate \<Rightarrow> bool" where
  "isStream (Stream t) = True"
| "isStream (NonStream p) = False"

section \<open>Word coalescer: streamMessageUpdatesToFullWords\<close>

text \<open>
  The character class of the two regular expressions: the ASCII letters and digits, the
  range from U+00C0 (A with grave) to U+017E (z with caron), the apostrophe U+0027 and
  the backtick U+0060.
\<close>

definition wordChar :: "16 word \<Rightarrow> bool" where
  "wordChar c \<longleftrightarrow>
     (0x61 \<le> c \<and> c \<le> 0x7A) \<or> (0x41 \<le> c \<and> c \<le> 0x5A) \<or> (0x30 \<le> c \<and> c \<le> 0x39) \<or>
     (0xC0 \<le> c \<and> c \<le> 0x17E) \<or> c = 0x27 \<or> c = 0x60"

text \<open>
  \<^verbatim>\<open>/[...]+$/.test(s)\<close>: some non-empty run of class characters ends the string, that
  is, the string is not empty and its last code unit is in the class.
  \<^verbatim>\<open>/^[...]+/.test(s)\<close> likewise for the first code unit.
\<close>

definition endAlphanumeric :: "ustring \<Rightarrow> bool" where
  "endAlphanumeric s \<longleftrightarrow> (case rev s of [] \<Rightarrow> False | c # _ \<Rightarrow> wordChar c)"

definition beginnningAlphanumeric :: "ustring \<Rightarrow> bool" where
  "beginnningAlphanumeric s \<longleftrightarrow> (case s of [] \<Rightarrow> False | c # _ \<Rightarrow> wordChar c)"

text \<open>\<^verbatim>\<open>xs.slice(a, b)\<close> for \<open>0 \<le> a\<close>, \<open>0 \<le> b\<close>; \<^verbatim>\<open>xs.slice(a)\<close> is \<open>drop a xs\<close>.\<close>

definition slice :: "'a list \<Rightarrow> nat \<Rightarrow> nat \<Rightarrow> 'a list" where
  "slice xs a b = take (b - a) (drop a xs)"

text \<open>
  One turn of the inner \<^verbatim>\<open>for (let i = 1; i < bufferedStreamUpdates.length; i++)\<close> loop.
  The state is \<open>(lastIndexEmitted, fragments yielded in this pass)\<close>; the buffer is not
  changed inside the loop, and \<open>i\<close> stays below its length.
\<close>

definition emitStep :: "ustring list \<Rightarrow> nat \<times> ustring list \<Rightarrow> nat \<Rightarrow> nat \<times> ustring list" where
  "emitStep buf st i =
     (let lastIndexEmitted = fst st;
          prevEndsAlphanumeric = endAlphanumeric (buf ! (i - 1));
          currBeginsAlphanumeric = beginnningAlphanumeric (buf ! i);
          shouldCombine = prevEndsAlphanumeric \<and> currBeginsAlphanumeric;
          combinedTooMany = (i - lastIndexEmitted \<ge> 5)
      in if shouldCombine \<and> \<not> combinedTooMany then st
         else (i, snd st @ [concat (slice buf lastIndexEmitted i)]))"

definition emitLoop :: "ustring list \<Rightarrow> nat \<times> ustring list" where
  "emitLoop buf = foldl (emitStep buf) (0, []) [1..<length buf]"

text \<open>
  The generator, as a function from the records it is given (up to exhaustion of the
  input) to the records it yields. \<open>buf\<close> holds the tokens of \<^verbatim>\<open>bufferedStreamUpdates\<close>.
  On a non-stream update the buffer is joined into one fragment; at the end of the input
  the buffered updates are yielded one by one.
\<close>

fun fullWords :: "ustring list \<Rightarrow> 'p MessageUpdate list \<Rightarrow> 'p MessageUpdate list" where
  "fullWords buf [] = map Stream buf"
| "fullWords buf (NonStream p # rest) =
     (if length buf > 0 then [Stream (concat buf)] else []) @ NonStream p # fullWords [] rest"
| "fullWords buf (Stream t # rest) =
     (let buf' = buf @ [t];
          r = emitLoop buf'
      in map Stream (snd r) @ fullWords (drop (fst r) buf') rest)"

definition streamMessageUpdatesToFullWords :: "'p MessageUpdate list \<Rightarrow> 'p MessageUpdate list" where
  "streamMessageUpdatesToFullWords iterator = fullWords [] iterator"

section \<open>Chunk decoder: parseMessageUpdates and endpointStreamToIterator\<close>

definition newline :: "16 word" where
  "newline = 0x0A"

text \<open>
  \<^verbatim>\<open>value.split("\n")\<close>: the segments between the separators. The result is never empty;
  a string that ends with the separator has an empty last segment.
\<close>

fun split_str :: "'a \<Rightarrow> 'a list \<Rightarrow> 'a list list" where
  "split_str d [] = [[]]"
| "split_str d (c # cs) =
     (let r = split_str d cs
      in if c = d then [] # r else (c # hd r) # tl r)"

text \<open>
  \<^verbatim>\<open>JSON.parse\<close> is a function of the platform; on a string it either returns a value or
  throws a \<^verbatim>\<open>SyntaxError\<close>. The decoder takes it as the parameter \<open>parse\<close>, with \<open>None\<close>
  for the \<^verbatim>\<open>SyntaxError\<close>, so that what is proved of the decoder holds for every parser.

  The loop \<^verbatim>\<open>for (const input of inputs)\<close>: \<open>lastInput\<close> is \<^verbatim>\<open>inputs.at(-1) ?? ""\<close>, \<open>acc\<close> is
  \<^verbatim>\<open>messageUpdates\<close>. The first segment that does not parse ends the function.
\<close>

fun parseLoop :: "('a list \<Rightarrow> 'r option) \<Rightarrow> 'a list \<Rightarrow> 'a list list \<Rightarrow> 'r list \<Rightarrow> 'r list \<times> 'a list" where
  "parseLoop parse lastInput [] acc = (acc, [])"
| "parseLoop parse lastInput (input # rest) acc =
     (case parse input of
        Some u \<Rightarrow> parseLoop parse lastInput rest (acc @ [u])
      | None \<Rightarrow> (acc, lastInput))"

definition parseMessageUpdates :: "(ustring \<Rightarrow> 'r option) \<Rightarrow> ustring \<Rightarrow> 'r list \<times> ustring" where
  "parseMessageUpdates parse v =
     (let inputs = split_str newline v
      in parseLoop parse (if inputs = [] then [] else last inputs) inputs [])"

text \<open>
  The read loop of \<^verbatim>\<open>endpointStreamToIterator\<close>. The list holds the values that
  \<^verbatim>\<open>reader.read()\<close> delivers before it reports \<^verbatim>\<open>done\<close>; an empty value is skipped
  (\<^verbatim>\<open>if (!value) continue\<close>). The result is the records yielded and the content of
  \<^verbatim>\<open>prevChunk\<close> when the loop is left: nothing reads it after the \<^verbatim>\<open>break\<close>.
  Cancellation by the caller is not part of this model.
\<close>

fun readLoop :: "(ustring \<Rightarrow> 'r option) \<Rightarrow> ustring \<Rightarrow> ustring list \<Rightarrow> 'r list \<times> ustring" where
  "readLoop parse prevChunk [] = ([], prevChunk)"
| "readLoop parse prevChunk (v # vs) =
     (if v = [] then readLoop parse prevChunk vs
      else let r = parseMessageUpdates parse (prevChunk @ v);
               k = readLoop parse (snd r) vs
           in (fst r @ fst k, snd k))"

definition endpointStreamToIterator :: "(ustring \<Rightarrow> 'r option) \<Rightarrow> ustring list \<Rightarrow> 'r list" where
  "endpointStreamToIterator parse chunks = fst (readLoop parse [] chunks)"

text \<open>A text of complete lines: each record followed by the delimiter.\<close>

definition unlines :: "ustring list \<Rightarrow> ustring" where
  "unlines ls = concat (map (\<lambda>l. l @ [newline]) ls)"

section \<open>A model of JSON.parse\<close>

text \<open>
  For statements at concrete inputs the parameter is instantiated with a model of
  \<^verbatim>\<open>JSON.parse\<close> that follows the JSON grammar (ECMA-404): a scanner that is a finite
  automaton over the code units, and a stack machine over its tokens. Both read their
  input once from left to right, so they are total by structural recursion.
  A number is kept as its lexeme (the IEEE double it denotes is not computed), an object
  as the list of its members in source order (a repeated name is kept; the value of the
  property is that of its last member).
\<close>

datatype json =
    JNull
  | JBool bool
  | JNumber ustring
  | JString ustring
  | JArray "json list"
  | JObject "(ustring \<times> json) list"

datatype jtoken = TLBrace | TRBrace | TLBrack | TRBrack | TColon | TComma | TValue json

datatype nstate = NMinus | NZero | NInt | NDot | NFrac | NExp | NExpSign | NExpDig

datatype lmode =
    LStart
  | LStr ustring
  | LEsc ustring
  | LHex ustring nat "16 word"
  | LNum nstate ustring
  | LLit ustring json

definition isDigit :: "16 word \<Rightarrow> bool" where
  "isDigit c \<longleftrightarrow> 0x30 \<le> c \<and> c \<le> 0x39"

definition hexVal :: "16 word \<Rightarrow> 16 word option" where
  "hexVal c =
     (if 0x30 \<le> c \<and> c \<le> 0x39 then Some (c - 0x30)
      else if 0x41 \<le> c \<and> c \<le> 0x46 then Some (c - 0x41 + 10)
      else if 0x61 \<le> c \<and> c \<le> 0x66 then Some (c - 0x61 + 10)
      else None)"

text \<open>The scanner between tokens: white space, punctuation, or the first code unit of a
  string, a number or a literal name.\<close>

definition lexStart :: "16 word \<Rightarrow> (lmode \<times> jtoken list) option" where
  "lexStart c =
     (if c = 0x20 \<or> c = 0x09 \<or> c = 0x0A \<or> c = 0x0D then Some (LStart, [])
      else if c = 0x7B then Some (LStart, [TLBrace])
      else if c = 0x7D then Some (LStart, [TRBrace])
      else if c = 0x5B then Some (LStart, [TLBrack])
      else if c = 0x5D then Some (LStart, [TRBrack])
      else if c = 0x3A then Some (LStart, [TColon])
      else if c = 0x2C then Some (LStart, [TComma])
      else if c = 0x22 then Some (LStr [], [])
      else if c = 0x2D then Some (LNum NMinus [c], [])
      else if c = 0x30 then Some (LNum NZero [c], [])
      else if 0x31 \<le> c \<and> c \<le> 0x39 then Some (LNum NInt [c], [])
      else if c = 0x74 then Some (LLit (ustr ''rue'') (JBool True), [])
      else if c = 0x66 then Some (LLit (ustr ''alse'') (JBool False), [])
      else if c = 0x6E then Some (LLit (ustr ''ull'') JNull, [])
      else None)"

text \<open>The number automaton: \<open>None\<close> when the code unit cannot continue the number.\<close>

fun numStep :: "nstate \<Rightarrow> 16 word \<Rightarrow> nstate option" where
  "numStep NMinus c = (if c = 0x30 then Some NZero else if isDigit c then Some NInt else None)"
| "numStep NZero c =
     (if c = 0x2E then Some NDot else if c = 0x65 \<or> c = 0x45 then Some NExp else None)"
| "numStep NInt c =
     (if isDigit c then Some NInt else if c = 0x2E then Some NDot
      else if c = 0x65 \<or> c = 0x45 then Some NExp else None)"
| "numStep NDot c = (if isDigit c then Some NFrac else None)"
| "numStep NFrac c =
     (if isDigit c then Some NFrac else if c = 0x65 \<or> c = 0x45 then Some NExp else None)"
| "numStep NExp c =
     (if c = 0x2B \<or> c = 0x2D then Some NExpSign else if isDigit c then Some NExpDig else None)"
| "numStep NExpSign c = (if isDigit c then Some NExpDig else None)"
| "numStep NExpDig c = (if isDigit c then Some NExpDig else None)"

fun numDone :: "nstate \<Rightarrow> bool" where
  "numDone NZero = True"
| "numDone NInt = True"
| "numDone NFrac = True"
| "numDone NExpDig = True"
| "numDone _ = False"

definition escChar :: "16 word \<Rightarrow> 16 word option" where
  "escChar c =
     (if c = 0x22 \<or> c = 0x5C \<or> c = 0x2F then Some c
      else if c = 0x62 then Some 0x08
      else if c = 0x66 then Some 0x0C
      else if c = 0x6E then Some 0x0A
      else if c = 0x72 then Some 0x0D
      else if c = 0x74 then Some 0x09
      else None)"

fun lexStep :: "lmode \<Rightarrow> 16 word \<Rightarrow> (lmode \<times> jtoken list) option" where
  "lexStep LStart c = lexStart c"
| "lexStep (LStr acc) c =
     (if c = 0x22 then Some (LStart, [TValue (JString acc)])
      else if c = 0x5C then Some (LEsc acc, [])
      else if c < 0x20 then None
      else Some (LStr (acc @ [c]), []))"
| "lexStep (LEsc acc) c =
     (if c = 0x75 then Some (LHex acc 0 0, [])
      else case escChar c of None \<Rightarrow> None | Some e \<Rightarrow> Some (LStr (acc @ [e]), []))"
| "lexStep (LHex acc k v) c =
     (case hexVal c of
        None \<Rightarrow> None
      | Some d \<Rightarrow>
          if k = 3 then Some (LStr (acc @ [v * 16 + d]), [])
          else Some (LHex acc (Suc k) (v * 16 + d), []))"
| "lexStep (LNum st acc) c =
     (case numStep st c of
        Some st' \<Rightarrow> Some (LNum st' (acc @ [c]), [])
      | None \<Rightarrow>
          if numDone st
          then (case lexStart c of
                  None \<Rightarrow> None
                | Some r \<Rightarrow> Some (fst r, TValue (JNumber acc) # snd r))
          else None)"
| "lexStep (LLit rem v) c =
     (case rem of
        [] \<Rightarrow> None
      | r # rs \<Rightarrow>
          if c = r then (if rs = [] then Some (LStart, [TValue v]) else Some (LLit rs v, []))
          else None)"

fun lexEnd :: "lmode \<Rightarrow> jtoken list option" where
  "lexEnd LStart = Some []"
| "lexEnd (LNum st acc) = (if numDone st then Some [TValue (JNumber acc)] else None)"
| "lexEnd _ = None"

fun lexRun :: "lmode \<Rightarrow> ustring \<Rightarrow> jtoken list option" where
  "lexRun m [] = lexEnd m"
| "lexRun m (c # cs) =
     (case lexStep m c of
        None \<Rightarrow> None
      | Some r \<Rightarrow> (case lexRun (fst r) cs of None \<Rightarrow> None | Some ts \<Rightarrow> Some (snd r @ ts)))"

text \<open>
  The stack machine over the tokens. A frame is an array or an object under construction;
  an object frame remembers the key that waits for its value.
\<close>

datatype frame = FArr "json list" | FObj "(ustring \<times> json) list" "ustring option"

datatype pmode =
    WantValue
  | WantValueOrClose
  | WantKeyOrClose
  | WantKey
  | WantColon
  | AfterValue
  | Finished json

text \<open>A complete value goes to the innermost open container, or ends the text.\<close>

fun deliver :: "json \<Rightarrow> frame list \<Rightarrow> (pmode \<times> frame list) option" where
  "deliver v [] = Some (Finished v, [])"
| "deliver v (FArr es # st) = Some (AfterValue, FArr (es @ [v]) # st)"
| "deliver v (FObj ms (Some k) # st) = Some (AfterValue, FObj (ms @ [(k, v)]) None # st)"
| "deliver v (FObj ms None # st) = None"

fun startValue :: "jtoken \<Rightarrow> frame list \<Rightarrow> (pmode \<times> frame list) option" where
  "startValue (TValue v) st = deliver v st"
| "startValue TLBrack st = Some (WantValueOrClose, FArr [] # st)"
| "startValue TLBrace st = Some (WantKeyOrClose, FObj [] None # st)"
| "startValue _ st = None"

fun takeKey :: "jtoken \<Rightarrow> frame list \<Rightarrow> (pmode \<times> frame list) option" where
  "takeKey (TValue (JString k)) (FObj ms None # st) = Some (WantColon, FObj ms (Some k) # st)"
| "takeKey _ _ = None"

fun closeArr :: "frame list \<Rightarrow> (pmode \<times> frame list) option" where
  "closeArr (FArr es # st) = deliver (JArray es) st"
| "closeArr _ = None"

fun closeObj :: "frame list \<Rightarrow> (pmode \<times> frame list) option" where
  "closeObj (FObj ms None # st) = deliver (JObject ms) st"
| "closeObj _ = None"

fun afterValue :: "jtoken \<Rightarrow> frame list \<Rightarrow> (pmode \<times> frame list) option" where
  "afterValue TComma (FArr es # st) = Some (WantValue, FArr es # st)"
| "afterValue TComma (FObj ms None # st) = Some (WantKey, FObj ms None # st)"
| "afterValue TRBrack st = closeArr st"
| "afterValue TRBrace st = closeObj st"
| "afterValue _ _ = None"

fun parseStep :: "pmode \<Rightarrow> frame list \<Rightarrow> jtoken \<Rightarrow> (pmode \<times> frame list) option" where
  "parseStep WantValue st t = startValue t st"
| "parseStep WantValueOrClose st t = (if t = TRBrack then closeArr st else startValue t st)"
| "parseStep WantKeyOrClose st t = (if t = TRBrace then closeObj st else takeKey t st)"
| "parseStep WantKey st t = takeKey t st"
| "parseStep WantColon st t = (if t = TColon then Some (WantValue, st) else None)"
| "parseStep AfterValue st t = afterValue t st"
| "parseStep (Finished v) st t = None"

fun parseRun :: "pmode \<Rightarrow> frame list \<Rightarrow> jtoken list \<Rightarrow> json option" where
  "parseRun m st [] = (case m of Finished v \<Rightarrow> Some v | _ \<Rightarrow> None)"
| "parseRun m st (t # ts) =
     (case parseStep m st t of None \<Rightarrow> None | Some r \<Rightarrow> parseRun (fst r) (snd r) ts)"

definition JSON_parse :: "ustring \<Rightarrow> json option" where
  "JSON_parse s = (case lexRun LStart s of None \<Rightarrow> None | Some ts \<Rightarrow> parseRun WantValue [] ts)"

section \<open>Transport check: fetchMessageUpdates\<close>

text \<open>
  The part of \<^verbatim>\<open>fetchMessageUpdates\<close> after \<^verbatim>\<open>fetch\<close> has answered. Of the \<^verbatim>\<open>Response\<close> the
  function reads \<^verbatim>\<open>ok\<close>, \<^verbatim>\<open>status\<close>, \<^verbatim>\<open>statusText\<close>, \<^verbatim>\<open>body\<close> and \<^verbatim>\<open>json()\<close>. \<open>body\<close> is the
  text of the body, \<open>None\<close> when \<^verbatim>\<open>response.body\<close> is null. \<^verbatim>\<open>response.ok\<close> is the platform's
  getter: the status is in the range 200 to 299.
\<close>

record Response =
  status :: nat
  statusText :: ustring
  body :: "ustring option"

definition ok :: "Response \<Rightarrow> bool" where
  "ok r \<longleftrightarrow> 200 \<le> status r \<and> status r \<le> 299"

text \<open>
  \<^verbatim>\<open>response.json()\<close> decodes the body as UTF-8 and parses the text. The decoding drops
  one leading byte order mark (U+FEFF); \<open>body\<close> holds the text with such a mark still in
  front, if the body has one. A null body reads as the empty text. \<open>None\<close> is the rejected
  promise.
\<close>

definition stripBOM :: "ustring \<Rightarrow> ustring" where
  "stripBOM t = (case t of [] \<Rightarrow> [] | c # cs \<Rightarrow> if c = 0xFEFF then cs else t)"

definition response_json :: "Response \<Rightarrow> json option" where
  "response_json r = JSON_parse (case body r of None \<Rightarrow> [] | Some t \<Rightarrow> stripBOM t)"

text \<open>
  \<^verbatim>\<open>obj.message\<close> on a parsed value. On \<^verbatim>\<open>null\<close> the access throws a \<^verbatim>\<open>TypeError\<close> (the outer
  \<open>None\<close>); on an object it is the value of the last member named \<^verbatim>\<open>message\<close>, and
  \<^verbatim>\<open>undefined\<close> (the inner \<open>None\<close>) when there is none; strings, numbers, booleans and
  arrays have no such property.
\<close>

fun prop_message :: "json \<Rightarrow> json option option" where
  "prop_message JNull = None"
| "prop_message (JObject ms) = Some (map_of (rev ms) (ustr ''message''))"
| "prop_message _ = Some None"

text \<open>Decimal digits of a number, as the template literal prints \<^verbatim>\<open>response.status\<close>.\<close>

fun showNat :: "nat \<Rightarrow> ustring" where
  "showNat n = (if n < 10 then [0x30 + of_nat n] else showNat (n div 10) @ [0x30 + of_nat (n mod 10)])"

declare showNat.simps [simp del]

definition fallbackMessage :: "Response \<Rightarrow> ustring" where
  "fallbackMessage r =
     ustr ''Request failed with status code '' @ showNat (status r) @ ustr '': '' @ statusText r"

text \<open>
  \<^verbatim>\<open>response.json().then((obj) => obj.message).catch(() => fallback)\<close>: the fallback is
  taken when the promise is rejected, by \<^verbatim>\<open>json()\<close> or by the property access. The
  result is the argument given to \<^verbatim>\<open>Error\<close>: \<open>None\<close> is \<^verbatim>\<open>undefined\<close>, for which the
  message of the error is the empty string.
\<close>

definition errorMessage :: "Response \<Rightarrow> json option" where
  "errorMessage r =
     (case response_json r of
        None \<Rightarrow> Some (JString (fallbackMessage r))
      | Some obj \<Rightarrow>
          (case prop_message obj of
             None \<Rightarrow> Some (JString (fallbackMessage r))
           | Some m \<Rightarrow> m))"

datatype thrown = Error "json option"

datatype pipeline = Decoded | Smoothed

text \<open>
  The function throws (\<open>Inl\<close>) or returns the iterator over the body: the decoder alone,
  or the decoder behind the word coalescer and the pacing scheduler when
  \<^verbatim>\<open>PUBLIC_SMOOTH_UPDATES\<close> is \<^verbatim>\<open>"true"\<close>.
\<close>

definition fetchMessageUpdates :: "Response \<Rightarrow> bool \<Rightarrow> thrown + pipeline" where
  "fetchMessageUpdates response smooth =
     (if \<not> ok response then Inl (Error (errorMessage response))
      else if body response = None then Inl (Error (Some (JString (ustr ''Body not defined''))))
      else if \<not> smooth then Inr Decoded
      else Inr Smoothed)"

section \<open>Pacing scheduler: smoothAsyncIterator\<close>

text \<open>
  The generator runs two activities on one thread: the background task
  \<^verbatim>\<open>consumeIterator\<close>, which drains the upstream iterator into the two queues, and the
  animation loop, which yields. JavaScript runs each of them without interruption from
  one \<^verbatim>\<open>await\<close> or \<^verbatim>\<open>yield\<close> to the next, so an execution is an interleaving of such
  uninterrupted turns, and the model is a state machine driven by a schedule of turns.

  \<open>upstream\<close> holds the updates that the upstream iterator has not delivered yet;
  \<open>yielded\<close> collects what the generator has yielded. \<open>pc\<close> is the place where the
  animation loop is suspended: \<open>Top\<close> before the test of the outer \<^verbatim>\<open>while\<close> (at the
  start, after \<^verbatim>\<open>sleep\<close> and after \<^verbatim>\<open>waitForDataOrTimeout\<close>), \<open>Inner\<close> at the \<^verbatim>\<open>yield\<close>
  inside the inner \<^verbatim>\<open>while\<close>, \<open>Exited\<close> once the outer loop is left.
\<close>

datatype location = Top | Inner | Exited

record 'p pacer =
  upstream :: "'p MessageUpdate list"
  charQueue :: ustring
  pendingNonStreamUpdates :: "'p MessageUpdate list"
  iteratorDone :: bool
  pc :: location
  yielded :: "'p MessageUpdate list"

definition initial :: "'p MessageUpdate list \<Rightarrow> 'p pacer" where
  "initial iterator =
     \<lparr>upstream = iterator, charQueue = [], pendingNonStreamUpdates = [],
      iteratorDone = False, pc = Top, yielded = []\<rparr>"

text \<open>One turn of \<^verbatim>\<open>consumeIterator\<close>: the next update is queued, or, when the upstream
  is exhausted, \<^verbatim>\<open>iteratorDone\<close> is set.\<close>

definition consumeIterator :: "'p pacer \<Rightarrow> 'p pacer" where
  "consumeIterator s =
     (case upstream s of
        [] \<Rightarrow> s\<lparr>iteratorDone := True\<rparr>
      | update # rest \<Rightarrow>
          (case update of
             Stream t \<Rightarrow> s\<lparr>upstream := rest, charQueue := charQueue s @ t\<rparr>
           | NonStream p \<Rightarrow>
               s\<lparr>upstream := rest,
                 pendingNonStreamUpdates := pendingNonStreamUpdates s @ [update]\<rparr>))"

text \<open>
  The body of the outer loop below the inner \<^verbatim>\<open>while\<close>. \<^verbatim>\<open>charsToProcess\<close> is computed from
  clock readings in floating point; the schedule supplies its value, any integer (a
  \<^verbatim>\<open>NaN\<close> fails the test \<^verbatim>\<open>> 0\<close> like a non-positive number, \<^verbatim>\<open>Infinity\<close> acts like any number
  beyond the length of the queue). After the \<^verbatim>\<open>yield\<close> of a token the loop only sleeps
  and returns to the top; the two suspensions are one here. When the queue is empty and
  the iterator is done, nothing is awaited and the test of the outer loop fails at once.
\<close>

definition frame :: "int \<Rightarrow> 'p pacer \<Rightarrow> 'p pacer" where
  "frame charsToProcess s =
     (if length (charQueue s) > 0 then
        (if charsToProcess > 0 then
           (let actualChars = min (nat charsToProcess) (length (charQueue s))
            in s\<lparr>yielded := yielded s @ [Stream (take actualChars (charQueue s))],
                 charQueue := drop actualChars (charQueue s),
                 pc := Top\<rparr>)
         else s\<lparr>pc := Top\<rparr>)
      else if \<not> iteratorDone s then s\<lparr>pc := Top\<rparr>
      else s\<lparr>pc := Exited\<rparr>)"

text \<open>The test of the inner \<^verbatim>\<open>while\<close>: a pending update is shifted out and yielded, or
  the frame is computed.\<close>

definition innerLoop :: "int \<Rightarrow> 'p pacer \<Rightarrow> 'p pacer" where
  "innerLoop charsToProcess s =
     (case pendingNonStreamUpdates s of
        u # rest \<Rightarrow> s\<lparr>yielded := yielded s @ [u], pendingNonStreamUpdates := rest, pc := Inner\<rparr>
      | [] \<Rightarrow> frame charsToProcess s)"

definition animationLoop :: "int \<Rightarrow> 'p pacer \<Rightarrow> 'p pacer" where
  "animationLoop charsToProcess s =
     (case pc s of
        Exited \<Rightarrow> s
      | Inner \<Rightarrow> innerLoop charsToProcess s
      | Top \<Rightarrow>
          if \<not> iteratorDone s \<or> length (charQueue s) > 0 \<or> length (pendingNonStreamUpdates s) > 0
          then innerLoop charsToProcess s
          else s\<lparr>pc := Exited\<rparr>)"

datatype turn = Producer | Consumer int

fun step :: "turn \<Rightarrow> 'p pacer \<Rightarrow> 'p pacer" where
  "step Producer s = consumeIterator s"
| "step (Consumer charsToProcess) s = animationLoop charsToProcess s"

fun run :: "turn list \<Rightarrow> 'p pacer \<Rightarrow> 'p pacer" where
  "run [] s = s"
| "run (t # ts) s = run ts (step t s)"

definition smoothAsyncIterator :: "turn list \<Rightarrow> 'p MessageUpdate list \<Rightarrow> 'p pacer" where
  "smoothAsyncIterator schedule iterator = run schedule (initial iterator)"

text \<open>The text carried by a sequence of updates, its other records, and for each of these
  the number of code units of text that stand before it.\<close>

fun streamText :: "'p MessageUpdate list \<Rightarrow> ustring" where
  "streamText [] = []"
| "streamText (Stream t # us) = t @ streamText us"
| "streamText (NonStream p # us) = streamText us"

fun nonStreams :: "'p MessageUpdate list \<Rightarrow> 'p MessageUpdate list" where
  "nonStreams [] = []"
| "nonStreams (Stream t # us) = nonStreams us"
| "nonStreams (NonStream p # us) = NonStream p # nonStreams us"

fun textBefore :: "'p MessageUpdate list \<Rightarrow> nat list" where
  "textBefore [] = []"
| "textBefore (Stream t # us) = map (\<lambda>n. length t + n) (textBefore us)"
| "textBefore (NonStream p # us) = 0 # textBefore us"

text \<open>
  The invariant of the state machine, relative to the updates \<open>consumed\<close> from the
  upstream so far: the text yielded and the text queued make up the text consumed; the
  records yielded and the records pending make up the records consumed; no stream update
  is pending; every record, yielded or pending, has at most as much text yielded before it
  as stood before it in the input; yielded tokens are not empty; the loop is left only
  when the iterator is done and both queues are empty.
\<close>

definition pacerInv :: "'p MessageUpdate list \<Rightarrow> 'p pacer \<Rightarrow> bool" where
  "pacerInv consumed s \<longleftrightarrow>
     streamText (yielded s) @ charQueue s = streamText consumed \<and>
     nonStreams (yielded s) @ pendingNonStreamUpdates s = nonStreams consumed \<and>
     list_all (\<lambda>u. \<not> isStream u) (pendingNonStreamUpdates s) \<and>
     list_all2 (\<le>) (textBefore (yielded s @ pendingNonStreamUpdates s)) (textBefore consumed) \<and>
     list_all (\<lambda>u. isStream u \<longrightarrow> token u \<noteq> []) (yielded s) \<and>
     (iteratorDone s \<longrightarrow> upstream s = []) \<and>
     (pc s = Exited \<longrightarrow> iteratorDone s \<and> charQueue s = [] \<and> pendingNonStreamUpdates s = [])"

section \<open>The pacing scheduler with its clock\<close>

text \<open>
  The state machine above leaves the number of characters of a frame to the schedule.
  Here the loop computes it as the source does, from the readings of
  \<^verbatim>\<open>performance.now()\<close> and the variables \<^verbatim>\<open>currentSpeed\<close>, \<^verbatim>\<open>lastQueueLength\<close>,
  \<^verbatim>\<open>accumulatedTime\<close> and \<^verbatim>\<open>lastFrameTime\<close>. JavaScript numbers are taken as real numbers:
  rounding is not modelled. A turn of the loop takes no time, so every reading of the
  clock within one turn gives the same value.

  \<open>suspended\<close> tells where the loop waits and what its resumption does first:
  \<open>AtYield\<close> at the \<^verbatim>\<open>yield\<close> of a token (on resumption \<^verbatim>\<open>lastQueueLength\<close> is set and
  \<^verbatim>\<open>sleep\<close> begins), \<open>Asleep wake\<close> in \<^verbatim>\<open>sleep(FRAME_INTERVAL_MS)\<close>, which a timer ends no
  earlier than at \<open>wake\<close>, \<open>Waiting\<close> in \<^verbatim>\<open>waitForDataOrTimeout(100)\<close> (on resumption
  \<^verbatim>\<open>lastFrameTime\<close> is reset), \<open>Running\<close> at the start and at the \<^verbatim>\<open>yield\<close> of a pending
  update.
\<close>

datatype suspension = Running | AtYield | Asleep real | Waiting

record 'p timed =
  pacer :: "'p pacer"
  currentSpeed :: real
  lastQueueLength :: nat
  accumulatedTime :: real
  lastFrameTime :: real
  suspended :: suspension

definition FRAME_INTERVAL_MS :: real where
  "FRAME_INTERVAL_MS = 16"

definition START_ANIMATION_SPEED :: real where
  "START_ANIMATION_SPEED = 30"

definition timedInitial :: "real \<Rightarrow> 'p MessageUpdate list \<Rightarrow> 'p timed" where
  "timedInitial now iterator =
     \<lparr>pacer = initial iterator, currentSpeed = START_ANIMATION_SPEED, lastQueueLength = 0,
      accumulatedTime = 0, lastFrameTime = now, suspended = Running\<rparr>"

text \<open>The frame, lines 248 to 278 of the source: the queue is not empty and nothing is
  pending. The characters are taken from the queue by \<open>animationLoop\<close> with the number
  computed here.\<close>

definition timedFrame :: "real \<Rightarrow> 'p timed \<Rightarrow> 'p timed" where
  "timedFrame currentTime \<tau> =
     (let s = pacer \<tau>;
          frameDuration = currentTime - lastFrameTime \<tau>;
          accumulated = accumulatedTime \<tau> + frameDuration;
          targetSpeed = max START_ANIMATION_SPEED (real (length (charQueue s)));
          speedChangeRate =
            \<bar>real (length (charQueue s)) - real (lastQueueLength \<tau>)\<bar> * (8 / 10000) + 5 / 1000;
          speed = currentSpeed \<tau> + (targetSpeed - currentSpeed \<tau>) * speedChangeRate;
          charsToProcess = \<lfloor>accumulated * speed / 1000\<rfloor>
      in if charsToProcess > 0
         then \<tau>\<lparr>pacer := animationLoop charsToProcess s,
                lastFrameTime := currentTime,
                accumulatedTime := accumulated - real_of_int charsToProcess * 1000 / speed,
                currentSpeed := speed,
                suspended := AtYield\<rparr>
         else \<tau>\<lparr>pacer := animationLoop charsToProcess s,
                lastFrameTime := currentTime,
                accumulatedTime := accumulated,
                currentSpeed := speed,
                lastQueueLength := length (charQueue s),
                suspended := Asleep (currentTime + FRAME_INTERVAL_MS)\<rparr>)"

text \<open>One pass from the test of the inner \<^verbatim>\<open>while\<close> to the next suspension.\<close>

definition timedLoop :: "real \<Rightarrow> 'p timed \<Rightarrow> 'p timed" where
  "timedLoop now \<tau> =
     (let s = pacer \<tau>
      in if pendingNonStreamUpdates s \<noteq> [] then \<tau>\<lparr>pacer := animationLoop 0 s, suspended := Running\<rparr>
         else if charQueue s \<noteq> [] then timedFrame now \<tau>
         else if \<not> iteratorDone s then \<tau>\<lparr>pacer := animationLoop 0 s, suspended := Waiting\<rparr>
         else \<tau>\<lparr>pacer := animationLoop 0 s\<rparr>)"

text \<open>
  An event is a turn of the background task or an occasion, at a given time, to resume
  the loop: the timer of \<^verbatim>\<open>sleep\<close> or of the wait has fired, data has arrived, or the
  caller asks for the next update. A loop that is asleep is not resumed before its time.
  A schedule is an infinite sequence of events; \<open>timedRun events n\<close> performs the first
  \<open>n\<close> of them.
\<close>

datatype event = Produce | Tick real

fun timedStep :: "event \<Rightarrow> 'p timed \<Rightarrow> 'p timed" where
  "timedStep Produce \<tau> = \<tau>\<lparr>pacer := consumeIterator (pacer \<tau>)\<rparr>"
| "timedStep (Tick now) \<tau> =
     (if pc (pacer \<tau>) = Exited then \<tau>
      else case suspended \<tau> of
             Running \<Rightarrow> timedLoop now \<tau>
           | AtYield \<Rightarrow>
               \<tau>\<lparr>lastQueueLength := length (charQueue (pacer \<tau>)),
                 suspended := Asleep (now + FRAME_INTERVAL_MS)\<rparr>
           | Asleep wake \<Rightarrow> if now < wake then \<tau> else timedLoop now \<tau>
           | Waiting \<Rightarrow> timedLoop now (\<tau>\<lparr>lastFrameTime := now\<rparr>))"

primrec timedRun :: "(nat \<Rightarrow> event) \<Rightarrow> nat \<Rightarrow> 'p timed \<Rightarrow> 'p timed" where
  "timedRun events 0 \<tau> = \<tau>"
| "timedRun events (Suc n) \<tau> = timedStep (events n) (timedRun events n \<tau>)"





text \<open>A fair schedule for examples: the background task and the loop take turns, the
  clock advancing 16 ms between two turns of the loop.\<close>

definition everyOther :: "nat \<Rightarrow> event" where
  "everyOther n = (if even n then Produce else Tick (8 * real n))"

section \<open>Properties of the word coalescer\<close>

lemma upt_from_1:
  "[1..<Suc 0] = []" "[1..<2] = [1::nat]" "[1..<3] = [1, 2::nat]" "[1..<4] = [1, 2, 3::nat]"
  "[1..<5] = [1, 2, 3, 4::nat]" "[1..<6] = [1, 2, 3, 4, 5::nat]"
  by (simp_all add: eval_nat_numeral)

lemma emitLoop_single: "emitLoop [t1] = (0, [])"
  by (simp add: emitLoop_def)

lemma emitLoop_pair:
  "emitLoop [t1, t2] =
     (if endAlphanumeric t1 \<and> beginnningAlphanumeric t2 then (0, []) else (1, [t1]))"
  by (simp add: emitLoop_def emitStep_def slice_def upt_from_1)

lemma what_ends_word: "endAlphanumeric (ustr ''what'')"
  by (simp add: endAlphanumeric_def ustr_def wordChar_def)

lemma don_begins_blank: "\<not> beginnningAlphanumeric (ustr '' don'')"
  by (simp add: beginnningAlphanumeric_def ustr_def wordChar_def)

lemma don_ends_word: "endAlphanumeric (ustr '' don'')"
  by (simp add: endAlphanumeric_def ustr_def wordChar_def)

lemma apostrophe_begins_word: "beginnningAlphanumeric (ustr [CHR 0x27, CHR ''t''])"
  by (simp add: beginnningAlphanumeric_def ustr_def wordChar_def)

text \<open>
  C6. The fragments \<^verbatim>\<open>"what"\<close>, \<^verbatim>\<open>" don"\<close>, \<^verbatim>\<open>"'t"\<close> followed by the end of the input:
  \<^verbatim>\<open>"what"\<close> is yielded when \<^verbatim>\<open>" don"\<close> arrives; \<^verbatim>\<open>" don"\<close> and \<^verbatim>\<open>"'t"\<close> are buffered
  together, and the final loop over the buffer yields them one by one. The generator
  yields three fragments, not \<^verbatim>\<open>"what"\<close> and \<^verbatim>\<open>" don't"\<close>.
\<close>

theorem coalesce_example_not_merged:
  "streamMessageUpdatesToFullWords
     [Stream (ustr ''what''), Stream (ustr '' don''), Stream (ustr [CHR 0x27, CHR ''t''])] =
   [Stream (ustr ''what''), Stream (ustr '' don''), Stream (ustr [CHR 0x27, CHR ''t''])]"
  by (simp add: streamMessageUpdatesToFullWords_def emitLoop_single emitLoop_pair
      what_ends_word don_begins_blank don_ends_word apostrophe_begins_word)

text \<open>The same fragments in front of a non-stream update are joined by the flush.\<close>

lemma coalesce_example_before_nonstream:
  "streamMessageUpdatesToFullWords
     [Stream (ustr ''what''), Stream (ustr '' don''), Stream (ustr [CHR 0x27, CHR ''t'']),
      NonStream p] =
   [Stream (ustr ''what''), Stream (ustr '' don'' @ ustr [CHR 0x27, CHR ''t'']), NonStream p]"
  by (simp add: streamMessageUpdatesToFullWords_def emitLoop_single emitLoop_pair
      what_ends_word don_begins_blank don_ends_word apostrophe_begins_word)

text \<open>Nothing is merged across a non-stream update: what is yielded after it depends on
  the updates behind it alone.\<close>

lemma fullWords_NonStream_cut:
  "fullWords buf (xs @ NonStream p # ys) = fullWords buf (xs @ [NonStream p]) @ fullWords [] ys"
proof (induction xs arbitrary: buf)
  case Nil
  show ?case by simp
next
  case (Cons x xs)
  show ?case
  proof (cases x)
    case (Stream t)
    define b where "b = drop (fst (emitLoop (buf @ [t]))) (buf @ [t])"
    have "fullWords b (xs @ NonStream p # ys) = fullWords b (xs @ [NonStream p]) @ fullWords [] ys"
      by (rule Cons.IH)
    then show ?thesis
      by (simp add: Stream Let_def b_def)
  next
    case (NonStream q)
    have "fullWords [] (xs @ NonStream p # ys) = fullWords [] (xs @ [NonStream p]) @ fullWords [] ys"
      by (rule Cons.IH)
    then show ?thesis
      by (simp add: NonStream)
  qed
qed

lemma fullWords_Stream:
  "fullWords buf (Stream t # rest) =
     map Stream (snd (emitLoop (buf @ [t]))) @
     fullWords (drop (fst (emitLoop (buf @ [t]))) (buf @ [t])) rest"
  by (simp add: Let_def)

lemma emitLoop_2:
  "endAlphanumeric t1 \<and> beginnningAlphanumeric t2 \<Longrightarrow> emitLoop [t1, t2] = (0, [])"
  by (simp add: emitLoop_pair)

lemma emitLoop_3:
  "endAlphanumeric t1 \<and> beginnningAlphanumeric t2 \<Longrightarrow>
   endAlphanumeric t2 \<and> beginnningAlphanumeric t3 \<Longrightarrow> emitLoop [t1, t2, t3] = (0, [])"
  by (simp add: emitLoop_def emitStep_def slice_def upt_from_1)

lemma emitLoop_4:
  "endAlphanumeric t1 \<and> beginnningAlphanumeric t2 \<Longrightarrow>
   endAlphanumeric t2 \<and> beginnningAlphanumeric t3 \<Longrightarrow>
   endAlphanumeric t3 \<and> beginnningAlphanumeric t4 \<Longrightarrow> emitLoop [t1, t2, t3, t4] = (0, [])"
  by (simp add: emitLoop_def emitStep_def slice_def upt_from_1)

lemma emitLoop_5:
  "endAlphanumeric t1 \<and> beginnningAlphanumeric t2 \<Longrightarrow>
   endAlphanumeric t2 \<and> beginnningAlphanumeric t3 \<Longrightarrow>
   endAlphanumeric t3 \<and> beginnningAlphanumeric t4 \<Longrightarrow>
   endAlphanumeric t4 \<and> beginnningAlphanumeric t5 \<Longrightarrow>
   emitLoop [t1, t2, t3, t4, t5] = (0, [])"
  by (simp add: emitLoop_def emitStep_def slice_def upt_from_1)

text \<open>With a sixth continuing fragment the test \<^verbatim>\<open>i - lastIndexEmitted >= 5\<close> holds at
  \<open>i = 5\<close>: the first five are yielded as one fragment.\<close>

lemma emitLoop_6:
  "endAlphanumeric t1 \<and> beginnningAlphanumeric t2 \<Longrightarrow>
   endAlphanumeric t2 \<and> beginnningAlphanumeric t3 \<Longrightarrow>
   endAlphanumeric t3 \<and> beginnningAlphanumeric t4 \<Longrightarrow>
   endAlphanumeric t4 \<and> beginnningAlphanumeric t5 \<Longrightarrow>
   endAlphanumeric t5 \<and> beginnningAlphanumeric t6 \<Longrightarrow>
   emitLoop [t1, t2, t3, t4, t5, t6] = (5, [t1 @ t2 @ t3 @ t4 @ t5])"
  by (simp add: emitLoop_def emitStep_def slice_def upt_from_1)

text \<open>
  C7. Six consecutive stream fragments, each adjacent pair passing the word-continuation
  test (the earlier one ends, the later one begins with a character of the class),
  followed by the end of the input: the generator yields two fragments, the first five
  joined and the sixth alone. No yielded fragment joins more than five inputs.
\<close>

theorem coalesce_cap_six:
  assumes c1: "endAlphanumeric t1 \<and> beginnningAlphanumeric t2"
    and c2: "endAlphanumeric t2 \<and> beginnningAlphanumeric t3"
    and c3: "endAlphanumeric t3 \<and> beginnningAlphanumeric t4"
    and c4: "endAlphanumeric t4 \<and> beginnningAlphanumeric t5"
    and c5: "endAlphanumeric t5 \<and> beginnningAlphanumeric t6"
  shows "streamMessageUpdatesToFullWords
           [Stream t1, Stream t2, Stream t3, Stream t4, Stream t5, Stream t6] =
         [Stream (t1 @ t2 @ t3 @ t4 @ t5), Stream t6]"
proof -
  have d: "drop 5 [t1, t2, t3, t4, t5, t6] = [t6]"
    by (simp add: eval_nat_numeral)
  show ?thesis
    unfolding streamMessageUpdatesToFullWords_def
    by (simp only: fullWords_Stream fullWords.simps(1) append_Nil append_Cons emitLoop_single
        emitLoop_2 [OF c1] emitLoop_3 [OF c1 c2] emitLoop_4 [OF c1 c2 c3]
        emitLoop_5 [OF c1 c2 c3 c4] emitLoop_6 [OF c1 c2 c3 c4 c5]
        fst_conv snd_conv list.map drop_0 d)
qed

lemma letter_word:
  "endAlphanumeric (ustr ''a'') \<and> beginnningAlphanumeric (ustr ''b'')"
  "endAlphanumeric (ustr ''b'') \<and> beginnningAlphanumeric (ustr ''c'')"
  "endAlphanumeric (ustr ''c'') \<and> beginnningAlphanumeric (ustr ''d'')"
  "endAlphanumeric (ustr ''d'') \<and> beginnningAlphanumeric (ustr ''e'')"
  "endAlphanumeric (ustr ''e'') \<and> beginnningAlphanumeric (ustr ''f'')"
  by (simp_all add: endAlphanumeric_def beginnningAlphanumeric_def ustr_def wordChar_def)

theorem coalesce_cap_six_witness:
  "streamMessageUpdatesToFullWords
     [Stream (ustr ''a''), Stream (ustr ''b''), Stream (ustr ''c''), Stream (ustr ''d''),
      Stream (ustr ''e''), Stream (ustr ''f'')] =
   [Stream (ustr ''a'' @ ustr ''b'' @ ustr ''c'' @ ustr ''d'' @ ustr ''e''), Stream (ustr ''f'')]"
  by (rule coalesce_cap_six [OF letter_word])

section \<open>Properties of the chunk decoder\<close>

subsection \<open>Splitting and the parse loop in closed form\<close>

lemma split_str_no_sep: "d \<notin> set t \<Longrightarrow> split_str d t = [t]"
  by (induction t) (auto simp add: Let_def)

lemma split_str_line: "d \<notin> set l \<Longrightarrow> split_str d (l @ d # rest) = l # split_str d rest"
  by (induction l) (auto simp add: Let_def)

lemma split_str_unlines:
  "\<forall>l \<in> set ls. newline \<notin> set l \<Longrightarrow> split_str newline (unlines ls @ t) = ls @ split_str newline t"
  by (induction ls) (simp_all add: unlines_def split_str_line)

lemma split_str_not_Nil: "split_str d v \<noteq> []"
  by (induction v) (simp_all add: Let_def)

lemma parseLoop_fst:
  "fst (parseLoop parse l segs acc) = acc @ map (the \<circ> parse) (takeWhile (\<lambda>s. parse s \<noteq> None) segs)"
  by (induction segs arbitrary: acc) (auto split: option.splits)

lemma parseLoop_snd:
  "snd (parseLoop parse l segs acc) = (if \<forall>s \<in> set segs. parse s \<noteq> None then [] else l)"
  by (induction segs arbitrary: acc) (auto split: option.splits)

lemma parseMessageUpdates_closed:
  "parseMessageUpdates parse v =
     (map (the \<circ> parse) (takeWhile (\<lambda>s. parse s \<noteq> None) (split_str newline v)),
      if \<forall>s \<in> set (split_str newline v). parse s \<noteq> None then [] else last (split_str newline v))"
  by (simp add: parseMessageUpdates_def Let_def split_str_not_Nil prod_eq_iff parseLoop_fst parseLoop_snd)

lemma parseMessageUpdates_lines:
  assumes "\<forall>l \<in> set ls. newline \<notin> set l \<and> parse l \<noteq> None" and "newline \<notin> set t"
  shows "parseMessageUpdates parse (unlines ls @ t) =
     (map (the \<circ> parse) ls @ (case parse t of Some u \<Rightarrow> [u] | None \<Rightarrow> []),
      if parse t = None then t else [])"
proof -
  have s: "split_str newline (unlines ls @ t) = ls @ [t]"
    using assms by (simp add: split_str_unlines split_str_no_sep)
  have tw: "takeWhile (\<lambda>s. parse s \<noteq> None) (ls @ [t]) = ls @ (if parse t = None then [] else [t])"
    using assms(1) by simp
  show ?thesis
    using assms(1) by (auto simp add: parseMessageUpdates_closed s tw split: option.splits)
qed

lemma split_str_trailing: "split_str d (v @ [d]) = split_str d v @ [[]]"
  by (induction v) (simp_all add: Let_def split_str_not_Nil)

lemma split_str_last_trailing: "v \<noteq> [] \<Longrightarrow> last v = d \<Longrightarrow> last (split_str d v) = []"
proof -
  assume "v \<noteq> []" and "last v = d"
  then have "v = butlast v @ [d]"
    by (metis append_butlast_last_id)
  then have "split_str d v = split_str d (butlast v) @ [[]]"
    by (metis split_str_trailing)
  then show ?thesis by simp
qed

lemma unlines_Nil_iff: "unlines g = [] \<longleftrightarrow> g = []"
  by (cases g) (simp_all add: unlines_def)

lemma readLoop_single:
  "c \<noteq> [] \<Longrightarrow> readLoop parse prev [c] = parseMessageUpdates parse (prev @ c)"
  by (simp add: Let_def)

lemma readLoop_line_chunks:
  assumes e: "parse [] = None"
    and ok: "\<forall>l \<in> set (concat groups). newline \<notin> set l \<and> parse l \<noteq> None"
  shows "readLoop parse [] (map unlines groups @ rest) =
     (map (the \<circ> parse) (concat groups) @ fst (readLoop parse [] rest), snd (readLoop parse [] rest))"
  using ok
proof (induction groups)
  case Nil
  show ?case by simp
next
  case (Cons g groups)
  have g: "\<forall>l \<in> set g. newline \<notin> set l \<and> parse l \<noteq> None"
    using Cons.prems by simp
  have IH: "readLoop parse [] (map unlines groups @ rest) =
     (map (the \<circ> parse) (concat groups) @ fst (readLoop parse [] rest), snd (readLoop parse [] rest))"
    using Cons by simp
  show ?case
  proof (cases "g = []")
    case True
    then show ?thesis by (simp add: IH unlines_Nil_iff)
  next
    case False
    have p: "parseMessageUpdates parse (unlines g) = (map (the \<circ> parse) g, [])"
      using parseMessageUpdates_lines [of g parse "[]"] g e by simp
    show ?thesis
      using False by (simp add: unlines_Nil_iff p IH Let_def)
  qed
qed


subsection \<open>The decoder on concrete streams\<close>

text \<open>The scenario of the specification: a record cut in the middle is completed by the
  next chunk.\<close>

lemma decoder_end_to_end:
  "endpointStreamToIterator JSON_parse
     [ustr ''{\"type\":\"stream\",\"token\":\"Hel\"}\<newline>{\"ty'',
      ustr ''pe\":\"stream\",\"token\":\"lo\"}\<newline>''] =
     [JObject [(ustr ''type'', JString (ustr ''stream'')), (ustr ''token'', JString (ustr ''Hel''))],
      JObject [(ustr ''type'', JString (ustr ''stream'')), (ustr ''token'', JString (ustr ''lo''))]]"
  by code_simp

text \<open>
  C1. Decoding must not depend on where the stream is cut into chunks. It does: when the
  cut falls between a record and its delimiter, the record is yielded at once (it
  parses, and the carry is left empty); the next chunk begins with the delimiter, its
  first segment is empty and does not parse, and the function returns there, so the
  second record is never yielded. The same stream in one chunk yields both records.
\<close>

theorem decoder_loses_record_split_before_newline:
  "endpointStreamToIterator JSON_parse
     [ustr ''{\"type\":\"stream\",\"token\":\"a\"}'',
      ustr ''\<newline>{\"type\":\"stream\",\"token\":\"b\"}\<newline>''] =
     [JObject [(ustr ''type'', JString (ustr ''stream'')), (ustr ''token'', JString (ustr ''a''))]] \<and>
   endpointStreamToIterator JSON_parse
     [ustr ''{\"type\":\"stream\",\"token\":\"a\"}\<newline>{\"type\":\"stream\",\"token\":\"b\"}\<newline>''] =
     [JObject [(ustr ''type'', JString (ustr ''stream'')), (ustr ''token'', JString (ustr ''a''))],
      JObject [(ustr ''type'', JString (ustr ''stream'')), (ustr ''token'', JString (ustr ''b''))]]"
  by code_simp

subsection \<open>The last segment of a chunk\<close>

text \<open>
  Against C2 as stated: a chunk without any newline that parses is yielded as a record in
  that step, and the carry is empty.
\<close>

theorem last_segment_emitted_counterexample:
  "split_str newline (ustr ''{\"type\":\"stream\",\"token\":\"a\"}'') =
     [ustr ''{\"type\":\"stream\",\"token\":\"a\"}''] \<and>
   parseMessageUpdates JSON_parse (ustr ''{\"type\":\"stream\",\"token\":\"a\"}'') =
     ([JObject [(ustr ''type'', JString (ustr ''stream'')), (ustr ''token'', JString (ustr ''a''))]],
      [])"
  by code_simp

text \<open>
  C2, amended. For a chunk whose segments before the last all parse: the last segment is
  yielded as a record in that step when it parses, and the carry is then empty; it is
  kept as the carry, and not yielded, when it does not parse. A chunk without newline is
  therefore either yielded at once as one record or held whole as the carry, and a chunk
  that ends with a newline leaves an empty carry.
\<close>

theorem last_segment_rule:
  assumes "\<forall>s \<in> set (butlast (split_str newline v)). parse s \<noteq> None"
  shows "(parse (last (split_str newline v)) \<noteq> None \<longrightarrow>
            parseMessageUpdates parse v = (map (the \<circ> parse) (split_str newline v), [])) \<and>
         (parse (last (split_str newline v)) = None \<longrightarrow>
            parseMessageUpdates parse v =
              (map (the \<circ> parse) (butlast (split_str newline v)), last (split_str newline v))) \<and>
         (newline \<notin> set v \<longrightarrow>
            parseMessageUpdates parse v = (case parse v of Some u \<Rightarrow> ([u], []) | None \<Rightarrow> ([], v))) \<and>
         (v \<noteq> [] \<and> last v = newline \<longrightarrow> snd (parseMessageUpdates parse v) = [])"
proof -
  define segs where "segs = split_str newline v"
  define good where "good = (\<lambda>s. parse s \<noteq> None)"
  have ne: "segs \<noteq> []"
    by (simp add: segs_def split_str_not_Nil)
  then have segs: "butlast segs @ [last segs] = segs"
    by simp
  have bl: "\<forall>s \<in> set (butlast segs). good s"
    using assms by (simp add: segs_def good_def)
  have closed: "parseMessageUpdates parse v =
      (map (the \<circ> parse) (takeWhile good segs),
       if \<forall>s \<in> set segs. good s then [] else last segs)"
    unfolding segs_def good_def by (rule parseMessageUpdates_closed)
  have a: "parseMessageUpdates parse v = (map (the \<circ> parse) segs, [])" if "good (last segs)"
  proof -
    have "\<forall>s \<in> set (butlast segs @ [last segs]). good s"
      using bl that by simp
    then have all: "\<forall>s \<in> set segs. good s"
      by (simp only: segs)
    then have tw: "takeWhile good segs = segs"
      by (simp add: takeWhile_eq_all_conv)
    show ?thesis
      unfolding closed tw using all by simp
  qed
  have b: "parseMessageUpdates parse v = (map (the \<circ> parse) (butlast segs), last segs)"
    if "\<not> good (last segs)"
  proof -
    have "takeWhile good (butlast segs @ [last segs]) = butlast segs"
      using bl that by simp
    then have tw: "takeWhile good segs = butlast segs"
      by (simp only: segs)
    have nall: "\<not> (\<forall>s \<in> set segs. good s)"
      using that ne by (meson last_in_set)
    show ?thesis
      unfolding closed tw using nall by auto
  qed
  have c: "newline \<notin> set v \<longrightarrow>
      parseMessageUpdates parse v = (case parse v of Some u \<Rightarrow> ([u], []) | None \<Rightarrow> ([], v))"
    by (simp add: parseMessageUpdates_closed split_str_no_sep split: option.splits)
  have d: "snd (parseMessageUpdates parse v) = []" if "v \<noteq> [] \<and> last v = newline"
  proof -
    have "last segs = []"
      using that by (simp add: segs_def split_str_last_trailing)
    then show ?thesis
      by (simp add: closed)
  qed
  show ?thesis
    using a b c d unfolding segs_def good_def by blast
qed

theorem last_segment_rule_witness:
  "parseMessageUpdates JSON_parse (ustr ''{}\<newline>{\"ty'') = ([JObject []], ustr ''{\"ty'')"
proof -
  have s: "split_str newline (ustr ''{}\<newline>{\"ty'') = [ustr ''{}'', ustr ''{\"ty'']"
    by code_simp
  have h: "\<forall>s \<in> set (butlast (split_str newline (ustr ''{}\<newline>{\"ty''))). JSON_parse s \<noteq> None"
    unfolding s by code_simp
  have b: "JSON_parse (last (split_str newline (ustr ''{}\<newline>{\"ty''))) = None"
    unfolding s by code_simp
  have v: "the (JSON_parse (ustr ''{}'')) = JObject []"
    by code_simp
  from last_segment_rule [OF h, THEN conjunct2, THEN conjunct1] b
  have "parseMessageUpdates JSON_parse (ustr ''{}\<newline>{\"ty'') =
      (map (the \<circ> JSON_parse) (butlast (split_str newline (ustr ''{}\<newline>{\"ty''))),
       last (split_str newline (ustr ''{}\<newline>{\"ty'')))"
    by blast
  then show ?thesis
    unfolding s using v by simp
qed

subsection \<open>A segment that does not parse\<close>

text \<open>
  C3. A segment that does not parse must be dropped alone, and the segments behind it
  must still be decoded. They are not: in the chunk below the second segment does not
  parse, the function returns there, and the third segment, a complete record that
  parses, is neither yielded nor kept (the carry is the empty last segment).
\<close>

theorem decoder_drops_segments_after_failure:
  "split_str newline
     (ustr ''{\"type\":\"stream\",\"token\":\"a\"}\<newline>oops\<newline>{\"type\":\"stream\",\"token\":\"b\"}\<newline>'') =
     [ustr ''{\"type\":\"stream\",\"token\":\"a\"}'', ustr ''oops'',
      ustr ''{\"type\":\"stream\",\"token\":\"b\"}'', []] \<and>
   JSON_parse (ustr ''{\"type\":\"stream\",\"token\":\"b\"}'') =
     Some (JObject [(ustr ''type'', JString (ustr ''stream'')), (ustr ''token'', JString (ustr ''b''))]) \<and>
   parseMessageUpdates JSON_parse
     (ustr ''{\"type\":\"stream\",\"token\":\"a\"}\<newline>oops\<newline>{\"type\":\"stream\",\"token\":\"b\"}\<newline>'') =
     ([JObject [(ustr ''type'', JString (ustr ''stream'')), (ustr ''token'', JString (ustr ''a''))]],
      [])"
  by code_simp

subsection \<open>The end of the stream\<close>

text \<open>What is in \<^verbatim>\<open>prevChunk\<close> at the end is not parsed, even when it would parse: here the
  complete last line is held back by the failure of the first and is never yielded.\<close>

lemma carry_not_parsed_at_end:
  "readLoop JSON_parse [] [ustr ''oops\<newline>{}''] = ([], ustr ''{}'') \<and>
   endpointStreamToIterator JSON_parse [ustr ''oops\<newline>{}''] = [] \<and>
   JSON_parse (ustr ''{}'') = Some (JObject [])"
  by code_simp

text \<open>When every chunk ends with a newline, except that the last may end in a partial
  line, each step leaves an empty carry and all complete lines are yielded.\<close>

lemma line_chunks_decoded:
  assumes e: "parse [] = None"
    and ok: "\<forall>l \<in> set (concat groups @ g). newline \<notin> set l \<and> parse l \<noteq> None"
    and nl: "newline \<notin> set partial"
    and bad: "parse partial = None"
  shows "endpointStreamToIterator parse (map unlines groups @ [unlines g @ partial]) =
           map (the \<circ> parse) (concat groups @ g) \<and>
         snd (readLoop parse [] (map unlines groups @ [unlines g @ partial])) = partial"
proof -
  have g: "\<forall>l \<in> set g. newline \<notin> set l \<and> parse l \<noteq> None"
    and gs: "\<forall>l \<in> set (concat groups). newline \<notin> set l \<and> parse l \<noteq> None"
    using ok by auto
  have p: "parseMessageUpdates parse (unlines g @ partial) = (map (the \<circ> parse) g, partial)"
    using parseMessageUpdates_lines [of g parse partial] g nl bad by simp
  have last: "readLoop parse [] [unlines g @ partial] = (map (the \<circ> parse) g, partial)"
  proof (cases "unlines g @ partial = []")
    case True
    then have "g = []" and "partial = []"
      by (simp_all add: unlines_Nil_iff)
    then show ?thesis by (simp add: unlines_Nil_iff)
  next
    case False
    then have "readLoop parse [] [unlines g @ partial] =
        parseMessageUpdates parse ([] @ (unlines g @ partial))"
      by (rule readLoop_single)
    then show ?thesis by (simp only: append_Nil p)
  qed
  show ?thesis
    by (simp add: endpointStreamToIterator_def readLoop_line_chunks [OF e gs] last
        del: readLoop.simps)
qed

text \<open>
  C8. At the end of the stream the decoder must have yielded all records completed before
  and omit the dangling partial line. In the stream below the first record arrives in two
  pieces and is yielded; the last chunk begins with the newline of the first record, so
  its first segment is empty and does not parse, the function returns there, and the
  complete second record is lost. The partial line is in \<^verbatim>\<open>prevChunk\<close> at the end and is
  not parsed.
\<close>

theorem decoder_drops_record_before_dangling_line:
  "readLoop JSON_parse []
     [ustr ''{\"type\":\"str'', ustr ''eam\",\"token\":\"a\"}'',
      ustr ''\<newline>{\"type\":\"stream\",\"token\":\"b\"}\<newline>{\"ty''] =
     ([JObject [(ustr ''type'', JString (ustr ''stream'')), (ustr ''token'', JString (ustr ''a''))]],
      ustr ''{\"ty'') \<and>
   endpointStreamToIterator JSON_parse
     [ustr ''{\"type\":\"str'', ustr ''eam\",\"token\":\"a\"}'',
      ustr ''\<newline>{\"type\":\"stream\",\"token\":\"b\"}\<newline>{\"ty''] =
     [JObject [(ustr ''type'', JString (ustr ''stream'')), (ustr ''token'', JString (ustr ''a''))]] \<and>
   JSON_parse (ustr ''{\"type\":\"stream\",\"token\":\"b\"}'') =
     Some (JObject [(ustr ''type'', JString (ustr ''stream'')), (ustr ''token'', JString (ustr ''b''))])"
  by code_simp

section \<open>Properties of the pacing scheduler\<close>

subsection \<open>The invariant holds along every schedule\<close>

lemma streamText_append: "streamText (xs @ ys) = streamText xs @ streamText ys"
  by (induction xs rule: streamText.induct) simp_all

lemma nonStreams_append: "nonStreams (xs @ ys) = nonStreams xs @ nonStreams ys"
  by (induction xs rule: nonStreams.induct) simp_all

lemma textBefore_append:
  "textBefore (xs @ ys) = textBefore xs @ map (\<lambda>n. length (streamText xs) + n) (textBefore ys)"
  by (induction xs rule: textBefore.induct) (simp_all add: comp_def add.assoc)

lemma textBefore_snoc_NonStream:
  "textBefore (xs @ [NonStream p]) = textBefore xs @ [length (streamText xs)]"
  by (simp add: textBefore_append)

lemma textBefore_snoc_Stream: "textBefore (xs @ [Stream t]) = textBefore xs"
  by (simp add: textBefore_append)

lemma length_textBefore: "length (textBefore xs) = length (nonStreams xs)"
  by (induction xs rule: textBefore.induct) simp_all

lemma nonStream_cases: "\<not> isStream u \<Longrightarrow> \<exists>p. u = NonStream p"
  by (cases u) simp_all

lemma nonStreams_id: "list_all (\<lambda>u. \<not> isStream u) q \<Longrightarrow> nonStreams q = q"
  by (induction q rule: nonStreams.induct) simp_all

lemma streamText_nonStreams: "list_all (\<lambda>u. \<not> isStream u) q \<Longrightarrow> streamText q = []"
  by (induction q rule: streamText.induct) simp_all

lemma pacerInv_initial: "pacerInv [] (initial ups)"
  by (simp add: pacerInv_def initial_def)

lemma pacerInv_consumeIterator:
  assumes "pacerInv c s"
  shows "\<exists>c'. c' @ upstream (consumeIterator s) = c @ upstream s \<and> pacerInv c' (consumeIterator s)"
proof (cases "upstream s")
  case Nil
  then have "pacerInv c (consumeIterator s)"
    using assms by (simp add: pacerInv_def consumeIterator_def)
  then show ?thesis
    using Nil by (auto simp add: consumeIterator_def)
next
  case (Cons u rest)
  have nd: "\<not> iteratorDone s" "pc s \<noteq> Exited"
    using assms Cons by (auto simp add: pacerInv_def)
  show ?thesis
  proof (cases u)
    case (Stream t)
    have "pacerInv (c @ [Stream t]) (consumeIterator s)"
      using assms nd by (simp add: pacerInv_def consumeIterator_def Cons Stream
          streamText_append nonStreams_append textBefore_append)
    then show ?thesis
      by (intro exI [of _ "c @ [Stream t]"]) (simp add: consumeIterator_def Cons Stream)
  next
    case (NonStream p)
    have len: "length (streamText (yielded s)) \<le> length (streamText c)"
      using assms by (metis pacerInv_def length_append le_add1)
    have q: "streamText (pendingNonStreamUpdates s) = []"
      using assms by (simp add: pacerInv_def streamText_nonStreams)
    have "textBefore ((yielded s @ pendingNonStreamUpdates s) @ [NonStream p]) =
        textBefore (yielded s @ pendingNonStreamUpdates s) @ [length (streamText (yielded s))]"
      by (simp only: textBefore_snoc_NonStream streamText_append q append_Nil2)
    moreover have "list_all2 (\<le>) (textBefore (yielded s @ pendingNonStreamUpdates s)) (textBefore c)"
      using assms by (simp add: pacerInv_def)
    ultimately have tb: "list_all2 (\<le>)
        (textBefore (yielded s @ pendingNonStreamUpdates s @ [NonStream p]))
        (textBefore (c @ [NonStream p]))"
      using len by (simp add: textBefore_snoc_NonStream list_all2_appendI)
    have "pacerInv (c @ [NonStream p]) (consumeIterator s)"
      using assms nd tb
      by (simp add: pacerInv_def consumeIterator_def Cons NonStream
          streamText_append nonStreams_append)
    then show ?thesis
      by (intro exI [of _ "c @ [NonStream p]"]) (simp add: consumeIterator_def Cons NonStream)
  qed
qed

lemma pacerInv_frame:
  assumes "pacerInv c s" and "pendingNonStreamUpdates s = []" and "pc s \<noteq> Exited"
  shows "pacerInv c (frame n s)"
proof (cases "charQueue s = []")
  case True
  then show ?thesis
    using assms by (simp add: pacerInv_def frame_def)
next
  case False
  show ?thesis
  proof (cases "n > 0")
    case False
    then show ?thesis
      using assms \<open>charQueue s \<noteq> []\<close> by (simp add: pacerInv_def frame_def)
  next
    case True
    define k where "k = min (nat n) (length (charQueue s))"
    have k: "0 < k"
      using True False by (simp add: k_def)
    then have ne: "take k (charQueue s) \<noteq> []"
      using False by simp
    have f: "frame n s =
        s\<lparr>yielded := yielded s @ [Stream (take k (charQueue s))],
          charQueue := drop k (charQueue s), pc := Top\<rparr>"
      using True False by (simp add: frame_def k_def Let_def)
    show ?thesis
      using assms ne
      by (simp add: f pacerInv_def streamText_append nonStreams_append textBefore_snoc_Stream)
  qed
qed

lemma pacerInv_innerLoop:
  assumes "pacerInv c s" and "pc s \<noteq> Exited"
  shows "pacerInv c (innerLoop n s)"
proof (cases "pendingNonStreamUpdates s")
  case Nil
  then show ?thesis
    using assms by (simp add: innerLoop_def pacerInv_frame)
next
  case (Cons u rest)
  have "\<not> isStream u"
    using assms(1) Cons by (simp add: pacerInv_def)
  then obtain p where u: "u = NonStream p"
    using nonStream_cases by blast
  have q: "streamText rest = []"
    using assms(1) Cons by (simp add: pacerInv_def streamText_nonStreams)
  show ?thesis
    using assms
    by (simp add: innerLoop_def Cons u pacerInv_def streamText_append nonStreams_append)
qed

lemma pacerInv_animationLoop:
  assumes "pacerInv c s"
  shows "pacerInv c (animationLoop n s)"
proof (cases "pc s")
  case Top
  show ?thesis
  proof (cases "\<not> iteratorDone s \<or> length (charQueue s) > 0 \<or> length (pendingNonStreamUpdates s) > 0")
    case True
    then have "animationLoop n s = innerLoop n s"
      by (simp add: animationLoop_def Top)
    then show ?thesis
      using assms Top by (simp add: pacerInv_innerLoop)
  next
    case False
    then have "animationLoop n s = s\<lparr>pc := Exited\<rparr>"
      by (simp add: animationLoop_def Top)
    then show ?thesis
      using assms False by (simp add: pacerInv_def)
  qed
next
  case Inner
  then show ?thesis
    using assms by (simp add: animationLoop_def pacerInv_innerLoop)
next
  case Exited
  then show ?thesis
    using assms by (simp add: animationLoop_def)
qed

lemma upstream_frame: "upstream (frame n s) = upstream s"
  by (simp add: frame_def Let_def)

lemma upstream_animationLoop: "upstream (animationLoop n s) = upstream s"
  by (simp add: animationLoop_def innerLoop_def upstream_frame split: location.splits list.splits)

lemma pacerInv_step:
  assumes "pacerInv c s"
  shows "\<exists>c'. c' @ upstream (step t s) = c @ upstream s \<and> pacerInv c' (step t s)"
proof (cases t)
  case Producer
  then show ?thesis
    using pacerInv_consumeIterator [OF assms] by simp
next
  case (Consumer n)
  then show ?thesis
    using pacerInv_animationLoop [OF assms, of n] by (auto simp add: upstream_animationLoop)
qed

lemma pacerInv_run:
  "pacerInv c s \<Longrightarrow> \<exists>c'. c' @ upstream (run schedule s) = c @ upstream s \<and> pacerInv c' (run schedule s)"
proof (induction schedule arbitrary: c s)
  case Nil
  then show ?case by auto
next
  case (Cons t schedule)
  from pacerInv_step [OF Cons.prems, of t]
  obtain c1 where c1: "c1 @ upstream (step t s) = c @ upstream s" "pacerInv c1 (step t s)"
    by blast
  from Cons.IH [OF c1(2)]
  obtain c2 where "c2 @ upstream (run schedule (step t s)) = c1 @ upstream (step t s)"
    "pacerInv c2 (run schedule (step t s))"
    by blast
  then show ?case
    using c1(1) by auto
qed

lemma pacerInv_smooth:
  "\<exists>c. c @ upstream (smoothAsyncIterator schedule ups) = ups \<and>
       pacerInv c (smoothAsyncIterator schedule ups)"
  using pacerInv_run [OF pacerInv_initial, of schedule ups]
  by (simp add: smoothAsyncIterator_def initial_def)

subsection \<open>The scheduler can always finish\<close>

text \<open>Once the upstream is drained, frames with a positive budget empty the queues and
  the loop is left.\<close>

lemma run_append: "run (a @ b) s = run b (run a s)"
  by (induction a arbitrary: s) simp_all





subsection \<open>The clocked scheduler refines the state machine\<close>






subsection \<open>Timing invariants\<close>












subsection \<open>A frame that releases nothing brings the next release nearer\<close>










subsection \<open>Under a fair schedule the loop is left\<close>











subsection \<open>Text is neither lost nor duplicated\<close>




text \<open>The clocked scheduler on an example: at 30 characters per second the first
  character is released after 40 ms.\<close>

lemma timed_example:
  "yielded (pacer (timedRun everyOther 20
      (timedInitial 0 [Stream (ustr ''ab''), NonStream (0::nat), Stream (ustr ''c'')]))) =
     [NonStream 0, Stream (ustr ''a''), Stream (ustr ''b''), Stream (ustr ''c'')] \<and>
   pc (pacer (timedRun everyOther 22
      (timedInitial 0 [Stream (ustr ''ab''), NonStream (0::nat), Stream (ustr ''c'')]))) = Exited"
  by code_simp

text \<open>The frame computation on an example. The first frame, 8 ms after the start with 43
  code units queued, moves the speed from 30 to 30 + 13 * (43 * 0.0008 + 0.005) and
  releases nothing; the frame at 40 ms, with 44 code units queued, moves it on by
  (44 - speed) * 0.0058, releases one code unit and keeps the rest of the 40 ms.\<close>

lemma timed_example_speed:
  "currentSpeed (timedRun everyOther 2 (timedInitial 0
      [Stream (ustr ''The quick brown fox jumps over the lazy dog''), NonStream (0::nat),
       Stream (ustr ''!'')])) = 152561 / 5000 \<and>
   suspended (timedRun everyOther 2 (timedInitial 0
      [Stream (ustr ''The quick brown fox jumps over the lazy dog''), NonStream (0::nat),
       Stream (ustr ''!'')])) = Asleep 24 \<and>
   (let t = timedRun everyOther 6 (timedInitial 0
      [Stream (ustr ''The quick brown fox jumps over the lazy dog''), NonStream (0::nat),
       Stream (ustr ''!'')])
    in yielded (pacer t) = [NonStream 0, Stream (ustr ''T'')] \<and>
       length (charQueue (pacer t)) = 43 \<and>
       currentSpeed t = 764760731 / 25000000 \<and>
       accumulatedTime t = 5590429240 / 764760731 \<and>
       lastFrameTime t = 40 \<and> lastQueueLength t = 43 \<and> suspended t = AtYield)"
  by code_simp



subsection \<open>Order of the non-stream records\<close>

text \<open>
  Against C5 as stated: the record arrives while the text that preceded it is still
  queued; the next turn of the loop yields the record first, and the text after it.
\<close>

theorem nonstream_overtakes_text_counterexample:
  "yielded (smoothAsyncIterator
      [Consumer 0, Producer, Consumer 0, Producer, Producer,
       Consumer 0, Consumer 0, Consumer 1, Consumer 1, Consumer 1]
      [Stream (ustr ''ab''), NonStream (0::nat)]) =
     [NonStream 0, Stream (ustr ''a''), Stream (ustr ''b'')] \<and>
   pc (smoothAsyncIterator
      [Consumer 0, Producer, Consumer 0, Producer, Producer,
       Consumer 0, Consumer 0, Consumer 1, Consumer 1, Consumer 1]
      [Stream (ustr ''ab''), NonStream (0::nat)]) = Exited"
  by code_simp

text \<open>A pending record is yielded by the next turn of the animation loop, before anything
  is taken from the character queue.\<close>

lemma pending_goes_first:
  assumes "pacerInv c s" and "pendingNonStreamUpdates s \<noteq> []"
  shows "yielded (animationLoop n s) = yielded s @ [hd (pendingNonStreamUpdates s)] \<and>
         pendingNonStreamUpdates (animationLoop n s) = tl (pendingNonStreamUpdates s) \<and>
         charQueue (animationLoop n s) = charQueue s"
proof -
  have "pc s \<noteq> Exited"
    using assms by (auto simp add: pacerInv_def)
  then have "animationLoop n s = innerLoop n s"
    using assms(2) by (cases "pc s") (simp_all add: animationLoop_def)
  then show ?thesis
    using assms(2) by (cases "pendingNonStreamUpdates s") (simp_all add: innerLoop_def)
qed

text \<open>
  C5, amended. The non-stream records are yielded in the order of the input, none lost
  and none twice. Every record, yielded or still pending, has at most as much text yielded
  before it as stood before it in the input, so it is yielded before all text that
  followed it. A pending record goes out on the next turn of the animation loop, ahead of
  the character queue: text that preceded it and is still queued is yielded after it.
\<close>

theorem nonstream_order:
  "let s = smoothAsyncIterator schedule ups in
     nonStreams (yielded s) @ pendingNonStreamUpdates s @ nonStreams (upstream s) = nonStreams ups \<and>
     streamText (yielded s) @ charQueue s @ streamText (upstream s) = streamText ups \<and>
     list_all2 (\<le>) (textBefore (yielded s)) (take (length (textBefore (yielded s))) (textBefore ups)) \<and>
     list_all2 (\<le>) (textBefore (yielded s @ pendingNonStreamUpdates s))
       (take (length (textBefore (yielded s @ pendingNonStreamUpdates s))) (textBefore ups)) \<and>
     (pendingNonStreamUpdates s \<noteq> [] \<longrightarrow>
        (\<forall>n. let s' = smoothAsyncIterator (schedule @ [Consumer n]) ups in
               yielded s' = yielded s @ [hd (pendingNonStreamUpdates s)] \<and>
               pendingNonStreamUpdates s' = tl (pendingNonStreamUpdates s) \<and>
               charQueue s' = charQueue s))"
proof -
  define s where "s = smoothAsyncIterator schedule ups"
  obtain c where c: "c @ upstream s = ups" and inv: "pacerInv c s"
    using pacerInv_smooth unfolding s_def by blast
  have n: "nonStreams (yielded s) @ pendingNonStreamUpdates s @ nonStreams (upstream s) = nonStreams ups"
    using inv c nonStreams_append [of c "upstream s"] by (simp add: pacerInv_def)
  have t: "streamText (yielded s) @ charQueue s @ streamText (upstream s) = streamText ups"
    using inv c streamText_append [of c "upstream s"] by (simp add: pacerInv_def)
  have all: "list_all2 (\<le>) (textBefore (yielded s @ pendingNonStreamUpdates s)) (textBefore c)"
    using inv by (simp add: pacerInv_def)
  have ups: "textBefore ups =
      textBefore c @ map (\<lambda>n. length (streamText c) + n) (textBefore (upstream s))"
    using c textBefore_append [of c "upstream s"] by simp
  have "length (textBefore (yielded s @ pendingNonStreamUpdates s)) = length (textBefore c)"
    using all by (rule list_all2_lengthD)
  then have "take (length (textBefore (yielded s @ pendingNonStreamUpdates s))) (textBefore ups) =
      textBefore c"
    by (simp add: ups)
  then have q: "list_all2 (\<le>) (textBefore (yielded s @ pendingNonStreamUpdates s))
       (take (length (textBefore (yielded s @ pendingNonStreamUpdates s))) (textBefore ups))"
    using all by simp
  obtain us vs where uv: "textBefore c = us @ vs" "length us = length (textBefore (yielded s))"
      "list_all2 (\<le>) (textBefore (yielded s)) us"
    using all unfolding textBefore_append [of "yielded s"] by (auto simp add: list_all2_append1)
  have "take (length (textBefore (yielded s))) (textBefore ups) = us"
    using uv(1,2) by (simp add: ups)
  then have y: "list_all2 (\<le>) (textBefore (yielded s))
      (take (length (textBefore (yielded s))) (textBefore ups))"
    using uv(3) by simp
  have nxt: "smoothAsyncIterator (schedule @ [Consumer k]) ups = animationLoop k s" for k
    by (simp add: smoothAsyncIterator_def run_append s_def)
  have p: "pendingNonStreamUpdates s \<noteq> [] \<longrightarrow>
        (\<forall>n. let s' = smoothAsyncIterator (schedule @ [Consumer n]) ups in
               yielded s' = yielded s @ [hd (pendingNonStreamUpdates s)] \<and>
               pendingNonStreamUpdates s' = tl (pendingNonStreamUpdates s) \<and>
               charQueue s' = charQueue s)"
    using pending_goes_first [OF inv] by (simp add: nxt Let_def)
  show ?thesis
    unfolding Let_def s_def [symmetric] using n t y q p unfolding Let_def by blast
qed

theorem nonstream_order_witness:
  "pendingNonStreamUpdates (smoothAsyncIterator [Consumer 0, Producer, Consumer 0, Producer]
      [Stream (ustr ''ab''), NonStream (0::nat)]) = [NonStream 0] \<and>
   charQueue (smoothAsyncIterator [Consumer 0, Producer, Consumer 0, Producer]
      [Stream (ustr ''ab''), NonStream (0::nat)]) = ustr ''ab'' \<and>
   yielded (smoothAsyncIterator ([Consumer 0, Producer, Consumer 0, Producer] @ [Consumer 7])
      [Stream (ustr ''ab''), NonStream (0::nat)]) = [NonStream 0] \<and>
   charQueue (smoothAsyncIterator ([Consumer 0, Producer, Consumer 0, Producer] @ [Consumer 7])
      [Stream (ustr ''ab''), NonStream (0::nat)]) = ustr ''ab''"
proof -
  let ?sch = "[Consumer 0, Producer, Consumer 0, Producer]"
  let ?ups = "[Stream (ustr ''ab''), NonStream (0::nat)]"
  have a: "pendingNonStreamUpdates (smoothAsyncIterator ?sch ?ups) = [NonStream 0]"
    by code_simp
  have b: "charQueue (smoothAsyncIterator ?sch ?ups) = ustr ''ab''"
    by code_simp
  have y: "yielded (smoothAsyncIterator ?sch ?ups) = []"
    by code_simp
  have ne: "pendingNonStreamUpdates (smoothAsyncIterator ?sch ?ups) \<noteq> []"
    by (simp add: a)
  from nonstream_order [of ?sch ?ups] ne
  have "\<forall>n. let s' = smoothAsyncIterator (?sch @ [Consumer n]) ?ups in
      yielded s' = yielded (smoothAsyncIterator ?sch ?ups) @
                   [hd (pendingNonStreamUpdates (smoothAsyncIterator ?sch ?ups))] \<and>
      pendingNonStreamUpdates s' = tl (pendingNonStreamUpdates (smoothAsyncIterator ?sch ?ups)) \<and>
      charQueue s' = charQueue (smoothAsyncIterator ?sch ?ups)"
    unfolding Let_def by blast
  then have "yielded (smoothAsyncIterator (?sch @ [Consumer 7]) ?ups) = [NonStream 0] \<and>
      charQueue (smoothAsyncIterator (?sch @ [Consumer 7]) ?ups) = ustr ''ab''"
    unfolding Let_def a b y by simp
  with a b show ?thesis by blast
qed

subsection \<open>Yielded tokens are not empty\<close>

text \<open>
  C10. Every stream update yielded by the scheduler carries a token of at least one code
  unit, for every schedule.
\<close>

theorem paced_tokens_nonempty:
  "\<forall>u \<in> set (yielded (smoothAsyncIterator schedule ups)). isStream u \<longrightarrow> token u \<noteq> []"
proof -
  obtain c where "pacerInv c (smoothAsyncIterator schedule ups)"
    using pacerInv_smooth by blast
  then show ?thesis
    by (simp add: pacerInv_def list_all_iff)
qed

theorem paced_tokens_nonempty_witness:
  "Stream (ustr ''a'') \<in> set (yielded (smoothAsyncIterator
      [Producer, Consumer 1, Consumer 1] [Stream (ustr ''ab''), NonStream (0::nat)])) \<and>
   token (Stream (ustr ''a'') :: nat MessageUpdate) \<noteq> []"
proof -
  have m: "Stream (ustr ''a'') \<in> set (yielded (smoothAsyncIterator
      [Producer, Consumer 1, Consumer 1] [Stream (ustr ''ab''), NonStream (0::nat)]))"
    by code_simp
  have i: "isStream (Stream (ustr ''a'') :: nat MessageUpdate)"
    by simp
  have "token (Stream (ustr ''a'') :: nat MessageUpdate) \<noteq> []"
    by (rule paced_tokens_nonempty [THEN bspec, OF m, THEN mp, OF i])
  with m show ?thesis ..
qed

section \<open>Properties of the transport check\<close>

lemma fetch_throws_iff:
  "isl (fetchMessageUpdates response smooth) \<longleftrightarrow> \<not> ok response \<or> body response = None"
  by (simp add: fetchMessageUpdates_def)

lemma fetch_error_message:
  assumes "\<not> ok response"
  shows "response_json response = None \<or> response_json response = Some JNull \<Longrightarrow>
           fetchMessageUpdates response smooth = Inl (Error (Some (JString (fallbackMessage response))))"
    and "response_json response = Some (JObject ms) \<Longrightarrow>
           fetchMessageUpdates response smooth = Inl (Error (map_of (rev ms) (ustr ''message'')))"
  using assms by (auto simp add: fetchMessageUpdates_def errorMessage_def)

lemma fetch_body_missing:
  "ok response \<Longrightarrow> body response = None \<Longrightarrow>
   fetchMessageUpdates response smooth = Inl (Error (Some (JString (ustr ''Body not defined''))))"
  by (simp add: fetchMessageUpdates_def)

lemma fetch_error_with_message_field:
  "fetchMessageUpdates
     \<lparr>status = 404, statusText = ustr ''Not Found'',
      body = Some (ustr ''{\"message\":\"Conversation not found\"}'')\<rparr> True =
     Inl (Error (Some (JString (ustr ''Conversation not found''))))"
  by code_simp

text \<open>A byte order mark in front of the body is not part of the JSON text.\<close>

lemma fetch_error_message_after_bom:
  "fetchMessageUpdates
     \<lparr>status = 404, statusText = ustr ''Not Found'',
      body = Some (0xFEFF # ustr ''{\"message\":\"gone\"}'')\<rparr> True =
     Inl (Error (Some (JString (ustr ''gone''))))"
  by code_simp

lemma fetch_error_not_json:
  "fetchMessageUpdates
     \<lparr>status = 502, statusText = ustr ''Bad Gateway'',
      body = Some (ustr ''<html>Bad Gateway</html>'')\<rparr> True =
     Inl (Error (Some (JString (ustr ''Request failed with status code 502: Bad Gateway''))))"
  by code_simp

text \<open>
  C9. On a status outside 200 to 299 the message of the error must be the \<^verbatim>\<open>message\<close>
  field of the body, or else the fallback text. For a body that is valid JSON without
  such a field the promise of \<^verbatim>\<open>json()\<close> is fulfilled, \<^verbatim>\<open>obj.message\<close> is \<^verbatim>\<open>undefined\<close>
  and the \<^verbatim>\<open>catch\<close> is not reached: the function throws \<^verbatim>\<open>Error(undefined)\<close>, not
  the fallback.
\<close>

theorem fetch_error_without_message_field:
  "fetchMessageUpdates
     \<lparr>status = 500, statusText = ustr ''Internal Server Error'',
      body = Some (ustr ''{\"error\":\"boom\"}'')\<rparr> True = Inl (Error None) \<and>
   fallbackMessage
     \<lparr>status = 500, statusText = ustr ''Internal Server Error'',
      body = Some (ustr ''{\"error\":\"boom\"}'')\<rparr> =
     ustr ''Request failed with status code 500: Internal Server Error''"
  by code_simp

end
